theory Spec2Isabelle
  imports Complex_Main "HOL-Library.Log_Nat"
begin

section \<open>Exceptions\<close>

text \<open>
  The exceptions that the modelled functions can end with. \<open>ValueError\<close> is raised
  explicitly by \<open>create_updates\<close>; \<open>UnboundLocalError\<close> is what Python raises when a
  local variable is read before any assignment to it; \<open>TypeError\<close> is what a call with
  the wrong number of positional arguments raises; \<open>OverflowError\<close> is raised by the
  float arithmetic on integers beyond the binary64 range. \<open>ConfigurationError\<close> is the
  exception the specification names; no function of the source raises it.
\<close>

datatype py_error =
    ValueError
  | UnboundLocalError
  | TypeError
  | OverflowError
  | ConfigurationError

section \<open>Python floats\<close>

text \<open>
  \<open>upper_m = int(sub_grid.ratio / 2 - 0.5)\<close> is float arithmetic: \<open>/\<close> on two ints is
  the correctly rounded binary64 quotient, \<open>-\<close> is the IEEE subtraction and \<open>int\<close>
  truncates towards zero. A finite float is modelled by the rational it denotes, and
  each operation rounds the exact result to the nearest binary64 number, ties to even.
\<close>

definition round_half_even :: "rat \<Rightarrow> int" where
  "round_half_even x =
     (let f = \<lfloor>x\<rfloor>; d = x - of_int f
      in if d < 1 / 2 then f
         else if 1 / 2 < d then f + 1
         else if even f then f else f + 1)"

text \<open>The binary exponent of a non-zero rational: \<open>2 ^ e \<le> \<bar>x\<bar> < 2 ^ (e + 1)\<close>.\<close>

definition ilog2 :: "rat \<Rightarrow> int" where
  "ilog2 x =
     (if 1 \<le> \<bar>x\<bar> then bitlen \<lfloor>\<bar>x\<bar>\<rfloor> - 1
      else - bitlen (\<lceil>1 / \<bar>x\<bar>\<rceil> - 1))"

text \<open>
  Rounding to binary64: 53 significant bits, the exponent not below \<open>-1022\<close>
  (subnormal numbers share the spacing \<open>2 ^ -1074\<close>). A result of magnitude
  \<open>2 ^ 1024\<close> or more is no finite float: the int division raises \<open>OverflowError\<close>
  at once, the other operations give an infinity, which \<open>int\<close> then refuses with
  \<open>OverflowError\<close>. Every overflow inside \<open>int(...)\<close> therefore ends in that one
  exception, and the model raises it where the overflow happens.
\<close>

definition binary64 :: "rat \<Rightarrow> py_error + rat" where
  "binary64 x =
     (if x = 0 then Inr 0
      else
        let u = 2 powi (max (ilog2 x) (- 1022) - 52);
            r = of_int (round_half_even (x / u)) * u
        in if 2 ^ 1024 \<le> \<bar>r\<bar> then Inl OverflowError else Inr r)"

text \<open>Sequencing of computations that may raise.\<close>

definition bind_err :: "py_error + 'a \<Rightarrow> ('a \<Rightarrow> py_error + 'b) \<Rightarrow> py_error + 'b" where
  "bind_err r f = (case r of Inl e \<Rightarrow> Inl e | Inr v \<Rightarrow> f v)"

text \<open>\<open>int(x)\<close> on a finite float truncates towards zero.\<close>

definition py_int :: "rat \<Rightarrow> int" where
  "py_int x = (if 0 \<le> x then \<lfloor>x\<rfloor> else \<lceil>x\<rceil>)"

text \<open>\<open>int(sub_grid.ratio / 2 - 0.5)\<close>, for the ratio \<open>r\<close>.\<close>

definition upper_m :: "int \<Rightarrow> py_error + int" where
  "upper_m r =
     bind_err (binary64 (of_int r / 2)) (\<lambda>h.
     bind_err (binary64 (h - 1 / 2)) (\<lambda>d.
     Inr (py_int d)))"

text \<open>
  \<open>int(m + sub_grid.ratio / 2 - 0.5)\<close>: the quotient is computed first, the int \<open>m\<close>
  is converted to a float for the sum, and the subtraction comes last.
\<close>

definition shifted_step :: "int \<Rightarrow> int \<Rightarrow> py_error + int" where
  "shifted_step r m =
     bind_err (binary64 (of_int r / 2)) (\<lambda>h.
     bind_err (binary64 (of_int m)) (\<lambda>fm.
     bind_err (binary64 (fm + h)) (\<lambda>s.
     bind_err (binary64 (s - 1 / 2)) (\<lambda>d.
     Inr (py_int d)))))"

section \<open>Grids, sub-grids and their updaters\<close>

text \<open>
  A field array is a NumPy array that an object refers to; the Cython kernels update it
  in place. An object therefore holds the address of each of its arrays, and a store
  maps addresses to array contents. \<open>self.Ex\<close> is \<open>field_array self Ex\<close> and
  \<open>self.IDlookup['Ex']\<close> is \<open>IDlookup self Ex\<close>.
\<close>

datatype component = Ex | Ey | Ez | Hx | Hy | Hz

type_synonym addr = nat

record fdtd_grid =
  field_array :: "component \<Rightarrow> addr"
  updatecoeffsE :: addr
  updatecoeffsH :: addr
  ID :: addr
  IDlookup :: "component \<Rightarrow> int"

datatype py_class = SubGridHSG | CUDASubGridHSG | OtherClass

record subgrid = fdtd_grid +
  py_type :: py_class
  filter_attr :: bool
  ratio :: int
  is_os_sep :: int
  n_boundary_cells :: int
  nwx :: int
  nwy :: int
  nwz :: int
  i0 :: int
  j0 :: int
  k0 :: int
  i1 :: int
  j1 :: int
  k1 :: int

record main_grid = fdtd_grid +
  subgrids :: "subgrid list"

datatype precursors_class = PrecursorNodes | PrecursorNodesFiltered

text \<open>\<open>SubgridUpdater.__init__\<close>: the sub-grid, its precursor nodes, a source counter.\<close>

record updater =
  grid :: subgrid
  precursors :: precursors_class
  source_iteration :: int

definition SubgridUpdater :: "subgrid \<Rightarrow> precursors_class \<Rightarrow> updater" where
  "SubgridUpdater sg p = \<lparr>grid = sg, precursors = p, source_iteration = 0\<rparr>"

datatype updates_class = SubgridUpdates | CPUUpdates | CUDAUpdates

text \<open>
  An updates object: its class, the sub-grid updaters it wraps (\<open>SubgridUpdates\<close> only)
  and whether \<open>set_dispersive_updates\<close> has been applied to it.
\<close>

record updates_obj =
  upd_class :: updates_class
  updaters :: "updater list"
  dispersive_set :: bool

section \<open>Configuration and construction (solvers.py, subgrids/updates.py)\<close>

text \<open>The entries of \<open>config.sim_config.general\<close> that the construction reads.\<close>

record general =
  cpu :: bool
  cuda :: bool
  subgrid :: bool

datatype grid_class = FDTDGrid | CUDAGrid

text \<open>
  \<open>create_G\<close>: \<open>G\<close> is assigned in the two branches only, so \<open>return G\<close> with neither
  flag set reads an unbound local.
\<close>

definition create_G :: "general \<Rightarrow> py_error + grid_class" where
  "create_G c =
     (if cpu c then Inr FDTDGrid
      else if cuda c then Inr CUDAGrid
      else Inl UnboundLocalError)"

text \<open>
  The loop of \<open>create_updates\<close> over \<open>G.subgrids\<close>, with the list \<open>updaters\<close> built so
  far. \<open>type(sg) == SubGridHSG\<close> compares the exact class.
\<close>

fun create_updates_loop :: "subgrid list \<Rightarrow> updater list \<Rightarrow> py_error + updater list" where
  "create_updates_loop [] us = Inr us"
| "create_updates_loop (sg # sgs) us =
     (if py_type sg = SubGridHSG \<and> filter_attr sg
        then create_updates_loop sgs (us @ [SubgridUpdater sg PrecursorNodesFiltered])
      else if py_type sg = SubGridHSG \<and> \<not> filter_attr sg
        then create_updates_loop sgs (us @ [SubgridUpdater sg PrecursorNodes])
      else Inl ValueError)"

definition create_updates :: "main_grid \<Rightarrow> py_error + updates_obj" where
  "create_updates G =
     bind_err (create_updates_loop (subgrids G) []) (\<lambda>us.
     Inr \<lparr>upd_class = SubgridUpdates, updaters = us, dispersive_set = False\<rparr>)"

record solver =
  updates :: updates_obj
  hsg :: bool

definition set_dispersive_updates :: "updates_obj \<Rightarrow> updates_obj" where
  "set_dispersive_updates u = u\<lparr>dispersive_set := True\<rparr>"

text \<open>
  \<open>create_solver\<close>: \<open>solver\<close> is assigned in the three branches only. The sub-grid
  branch comes first and does not look at \<open>cpu\<close>.
\<close>

definition create_solver :: "general \<Rightarrow> main_grid \<Rightarrow> py_error + solver" where
  "create_solver c G =
     (if subgrid c then
        bind_err (create_updates G) (\<lambda>u.
          if cuda c then Inr \<lparr>updates = u, hsg = True\<rparr>
          else Inr \<lparr>updates = set_dispersive_updates u, hsg = True\<rparr>)
      else if cpu c then
        Inr \<lparr>updates = set_dispersive_updates
               \<lparr>upd_class = CPUUpdates, updaters = [], dispersive_set = False\<rparr>,
             hsg = False\<rparr>
      else if cuda c then
        Inr \<lparr>updates = \<lparr>upd_class = CUDAUpdates, updaters = [], dispersive_set = False\<rparr>,
             hsg = False\<rparr>
      else Inl UnboundLocalError)"

section \<open>The time loop (Solver.solve)\<close>

text \<open>The methods that \<open>solve\<close> and the sub-grid updaters call on an updates object.\<close>

datatype upd_call =
    Time_start
  | Store_outputs
  | Store_snapshots int
  | Update_magnetic
  | Update_magnetic_pml
  | Update_magnetic_sources
  | Hsg_2
  | Update_electric_a
  | Update_electric_pml
  | Update_electric_sources
  | Hsg_1
  | Update_electric_b
  | Calculate_memsolve int
  | Finalise
  | Calculate_tsolve
  | Cleanup

text \<open>A local variable is unbound until its first assignment.\<close>

datatype 'a py_var = Unbound | Bound 'a

text \<open>
  The state of a run of \<open>solve\<close>: the calls made on \<open>self.updates\<close> so far, in order,
  and the local \<open>memsolve\<close> (\<open>Bound None\<close> is Python's \<open>None\<close>).
\<close>

record solve_state =
  calls :: "upd_call list"
  memsolve :: "real option py_var"

text \<open>
  One pass through the body of the \<open>for\<close> loop. \<open>mem\<close> is what \<open>calculate_memsolve\<close>
  returns for an iteration; it is called only when \<open>cuda\<close> is set.
\<close>

definition solve_iteration ::
  "general \<Rightarrow> solver \<Rightarrow> (int \<Rightarrow> real) \<Rightarrow> solve_state \<Rightarrow> int \<Rightarrow> solve_state" where
  "solve_iteration c self mem s iteration =
     \<lparr>calls = calls s
        @ [Store_outputs, Store_snapshots iteration,
           Update_magnetic, Update_magnetic_pml, Update_magnetic_sources]
        @ (if hsg self then [Hsg_2] else [])
        @ [Update_electric_a, Update_electric_pml, Update_electric_sources]
        @ (if hsg self then [Hsg_1] else [])
        @ [Update_electric_b]
        @ (if cuda c then [Calculate_memsolve iteration] else []),
      memsolve = Bound (if cuda c then Some (mem iteration) else None)\<rparr>"

text \<open>
  \<open>solve\<close> returns the calls it made and either the pair \<open>(tsolve, memsolve)\<close> or the
  exception of the \<open>return\<close> statement. \<open>tsolve\<close> is what \<open>calculate_tsolve\<close> returns.
\<close>

definition solve ::
  "general \<Rightarrow> solver \<Rightarrow> (int \<Rightarrow> real) \<Rightarrow> real \<Rightarrow> int list
     \<Rightarrow> upd_call list \<times> (py_error + real \<times> real option)" where
  "solve c self mem tsolve iterator =
     (let s0 = \<lparr>calls = [Time_start], memsolve = Unbound\<rparr>;
          s1 = foldl (solve_iteration c self mem) s0 iterator;
          cs = calls s1 @ [Finalise, Calculate_tsolve, Cleanup]
      in (cs, case memsolve s1 of
                Unbound \<Rightarrow> Inl UnboundLocalError
              | Bound v \<Rightarrow> Inr (tsolve, v)))"

section \<open>The sub-grid updater (SubgridUpdater.hsg_1, SubgridUpdater.hsg_2)\<close>

text \<open>
  \<open>hsg_1\<close> and \<open>hsg_2\<close> call methods of three objects: of the updater itself (the
  update methods it inherits), of its precursor nodes, and of its sub-grid (the IS and
  OS injections). A run is the list of these calls, in order.
\<close>

datatype prec_call =
    Prec_update_electric
  | Prec_update_magnetic
  | Interpolate_magnetic_in_time int
  | Interpolate_electric_in_time int
  | Calc_exact_magnetic_in_time
  | Calc_exact_electric_in_time

datatype sub_call =
    Update_electric_is
  | Update_magnetic_is
  | Update_electric_os
  | Update_magnetic_os

datatype sg_call = Self upd_call | Prec prec_call | Sub sub_call

text \<open>
  The body of the loop of \<open>hsg_1\<close> for the loop variable \<open>m\<close>, where \<open>k\<close> is the value
  of \<open>int(m + sub_grid.ratio / 2 - 0.5)\<close>.
\<close>

definition hsg_1_step :: "int \<Rightarrow> int \<Rightarrow> sg_call list" where
  "hsg_1_step k m =
     [Self Store_outputs,
      Self Update_electric_a,
      Self Update_electric_pml,
      Prec (Interpolate_magnetic_in_time k),
      Sub Update_electric_is,
      Self Update_electric_sources,
      Self Update_electric_b,
      Self Update_magnetic,
      Self Update_magnetic_pml,
      Prec (Interpolate_electric_in_time m),
      Sub Update_magnetic_is,
      Self Update_magnetic_sources]"

text \<open>
  The loop over the values of \<open>range(1, upper_m + 1)\<close> still to come. The argument of
  \<open>interpolate_magnetic_in_time\<close> is evaluated after the three calls before it; if that
  raises, the run ends there. The result is the calls made and the exception, if any.
\<close>

fun hsg_1_loop :: "int \<Rightarrow> int list \<Rightarrow> sg_call list \<times> py_error option" where
  "hsg_1_loop r [] = ([], None)"
| "hsg_1_loop r (m # ms) =
     (case shifted_step r m of
        Inl e \<Rightarrow>
          ([Self Store_outputs, Self Update_electric_a, Self Update_electric_pml], Some e)
      | Inr k \<Rightarrow>
          (case hsg_1_loop r ms of (cs, res) \<Rightarrow> (hsg_1_step k m @ cs, res)))"

text \<open>The statements of \<open>hsg_1\<close> after the loop.\<close>

definition hsg_1_final :: "sg_call list" where
  "hsg_1_final =
     [Self Store_outputs,
      Self Update_electric_a,
      Self Update_electric_pml,
      Prec Calc_exact_magnetic_in_time,
      Sub Update_electric_is,
      Self Update_electric_sources,
      Self Update_electric_b,
      Sub Update_electric_os]"

definition hsg_1 :: "updater \<Rightarrow> sg_call list \<times> py_error option" where
  "hsg_1 self =
     (let r = ratio (grid self) in
      case upper_m r of
        Inl e \<Rightarrow> ([Prec Prec_update_electric], Some e)
      | Inr um \<Rightarrow>
          (case hsg_1_loop r [1..um] of
             (cs, Some e) \<Rightarrow> (Prec Prec_update_electric # cs, Some e)
           | (cs, None) \<Rightarrow> (Prec Prec_update_electric # cs @ hsg_1_final, None)))"

text \<open>
  The body of the loop of \<open>hsg_2\<close>; here the shifted index \<open>k\<close> goes to
  \<open>interpolate_electric_in_time\<close>.
\<close>

definition hsg_2_step :: "int \<Rightarrow> int \<Rightarrow> sg_call list" where
  "hsg_2_step k m =
     [Self Update_magnetic,
      Self Update_magnetic_pml,
      Prec (Interpolate_electric_in_time k),
      Sub Update_magnetic_is,
      Self Update_magnetic_sources,
      Self Store_outputs,
      Self Update_electric_a,
      Self Update_electric_pml,
      Prec (Interpolate_magnetic_in_time m),
      Sub Update_electric_is,
      Self Update_electric_sources,
      Self Update_electric_b]"

fun hsg_2_loop :: "int \<Rightarrow> int list \<Rightarrow> sg_call list \<times> py_error option" where
  "hsg_2_loop r [] = ([], None)"
| "hsg_2_loop r (m # ms) =
     (case shifted_step r m of
        Inl e \<Rightarrow> ([Self Update_magnetic, Self Update_magnetic_pml], Some e)
      | Inr k \<Rightarrow>
          (case hsg_2_loop r ms of (cs, res) \<Rightarrow> (hsg_2_step k m @ cs, res)))"

definition hsg_2_final :: "sg_call list" where
  "hsg_2_final =
     [Self Update_magnetic,
      Self Update_magnetic_pml,
      Prec Calc_exact_electric_in_time,
      Sub Update_magnetic_is,
      Self Update_magnetic_sources,
      Sub Update_magnetic_os]"

definition hsg_2 :: "updater \<Rightarrow> sg_call list \<times> py_error option" where
  "hsg_2 self =
     (let r = ratio (grid self) in
      case upper_m r of
        Inl e \<Rightarrow> ([Prec Prec_update_magnetic], Some e)
      | Inr um \<Rightarrow>
          (case hsg_2_loop r [1..um] of
             (cs, Some e) \<Rightarrow> (Prec Prec_update_magnetic # cs, Some e)
           | (cs, None) \<Rightarrow> (Prec Prec_update_magnetic # cs @ hsg_2_final, None)))"

section \<open>Sample objects\<close>

text \<open>A sub-grid and a main grid with separate arrays, for instantiating the theorems.\<close>

definition sample_subgrid :: "py_class \<Rightarrow> bool \<Rightarrow> int \<Rightarrow> subgrid" where
  "sample_subgrid cl f r =
     \<lparr>field_array = (\<lambda>c. case c of Ex \<Rightarrow> 10 | Ey \<Rightarrow> 11 | Ez \<Rightarrow> 12 | Hx \<Rightarrow> 13 | Hy \<Rightarrow> 14 | Hz \<Rightarrow> 15),
      updatecoeffsE = 16, updatecoeffsH = 17, ID = 18,
      IDlookup = (\<lambda>c. case c of Ex \<Rightarrow> 0 | Ey \<Rightarrow> 1 | Ez \<Rightarrow> 2 | Hx \<Rightarrow> 3 | Hy \<Rightarrow> 4 | Hz \<Rightarrow> 5),
      py_type = cl, filter_attr = f, ratio = r, is_os_sep = 3, n_boundary_cells = 14,
      nwx = 30, nwy = 30, nwz = 30, i0 = 5, j0 = 5, k0 = 5, i1 = 15, j1 = 15, k1 = 15\<rparr>"

definition sample_main_grid :: "subgrid list \<Rightarrow> main_grid" where
  "sample_main_grid sgs =
     \<lparr>field_array = (\<lambda>c. case c of Ex \<Rightarrow> 0 | Ey \<Rightarrow> 1 | Ez \<Rightarrow> 2 | Hx \<Rightarrow> 3 | Hy \<Rightarrow> 4 | Hz \<Rightarrow> 5),
      updatecoeffsE = 6, updatecoeffsH = 7, ID = 8,
      IDlookup = (\<lambda>c. case c of Ex \<Rightarrow> 0 | Ey \<Rightarrow> 1 | Ez \<Rightarrow> 2 | Hx \<Rightarrow> 3 | Hy \<Rightarrow> 4 | Hz \<Rightarrow> 5),
      subgrids = sgs\<rparr>"

definition sample_updater :: "int \<Rightarrow> updater" where
  "sample_updater r = SubgridUpdater (sample_subgrid SubGridHSG False r) PrecursorNodes"

section \<open>Facts about the float model\<close>

lemma round_half_even_of_int [simp]: "round_half_even (of_int k) = k"
  by (simp add: round_half_even_def)

lemma bitlen_pos: "0 < a \<Longrightarrow> 1 \<le> bitlen a"
  by (auto simp: bitlen_alt_def)

lemma two_powi_nonneg: "0 \<le> e \<Longrightarrow> (2::rat) powi e = 2 ^ nat e"
  by (simp add: power_int_def)

lemma two_powi_neg: "(2::rat) powi (- int d) = 1 / 2 ^ d"
  by (simp add: power_int_def field_simps)

lemma ilog2_lower:
  assumes "x \<noteq> 0"
  shows "2 powi (ilog2 x) \<le> \<bar>x\<bar>"
proof (cases "1 \<le> \<bar>x\<bar>")
  case True
  define a where "a = \<lfloor>\<bar>x\<bar>\<rfloor>"
  have a: "0 < a" using True by (simp add: a_def)
  have e: "ilog2 x = bitlen a - 1" using True by (simp add: ilog2_def a_def)
  have "(2::int) ^ nat (bitlen a - 1) \<le> a" using bitlen_bounds [OF a] by simp
  then have "(of_int ((2::int) ^ nat (bitlen a - 1)) :: rat) \<le> of_int a"
    by (simp only: of_int_le_iff)
  also have "\<dots> \<le> \<bar>x\<bar>" by (simp add: a_def)
  finally have "(2::rat) ^ nat (bitlen a - 1) \<le> \<bar>x\<bar>" by simp
  moreover have "0 \<le> bitlen a - 1" using bitlen_pos [OF a] by simp
  ultimately show ?thesis by (simp add: e two_powi_nonneg)
next
  case False
  define c where "c = \<lceil>1 / \<bar>x\<bar>\<rceil>"
  define b where "b = bitlen (c - 1)"
  have x: "0 < \<bar>x\<bar>" "\<bar>x\<bar> < 1" using assms False by simp_all
  have "1 < 1 / \<bar>x\<bar>" using x by (simp add: field_simps)
  then have c: "1 < c" unfolding c_def by (simp add: less_ceiling_iff)
  then have c1: "0 < c - 1" by simp
  have e: "ilog2 x = - b" using False by (simp add: ilog2_def b_def c_def)
  have b0: "0 \<le> b" unfolding b_def by (rule bitlen_nonneg)
  have "c - 1 < 2 ^ nat b" using bitlen_bounds [OF c1] by (simp add: b_def)
  then have "c \<le> 2 ^ nat b" by simp
  then have "(of_int c :: rat) \<le> of_int (2 ^ nat b)" by (simp only: of_int_le_iff)
  then have "(of_int c :: rat) \<le> 2 ^ nat b" by simp
  moreover have "1 / \<bar>x\<bar> \<le> of_int c" unfolding c_def by (rule le_of_int_ceiling)
  ultimately have "1 / \<bar>x\<bar> \<le> 2 ^ nat b" by linarith
  then have "1 / 2 ^ nat b \<le> \<bar>x\<bar>" using x by (simp add: field_simps)
  moreover have "(2::rat) powi (- b) = 1 / 2 ^ nat b"
    using two_powi_neg [of "nat b"] b0 by simp
  ultimately show ?thesis by (simp add: e)
qed

lemma ilog2_upper:
  assumes "x \<noteq> 0"
  shows "\<bar>x\<bar> < 2 powi (ilog2 x + 1)"
proof (cases "1 \<le> \<bar>x\<bar>")
  case True
  define a where "a = \<lfloor>\<bar>x\<bar>\<rfloor>"
  have a: "0 < a" using True by (simp add: a_def)
  have e: "ilog2 x = bitlen a - 1" using True by (simp add: ilog2_def a_def)
  have "a < 2 ^ nat (bitlen a)" using bitlen_bounds [OF a] by simp
  then have "a + 1 \<le> 2 ^ nat (bitlen a)" by simp
  then have "(of_int (a + 1) :: rat) \<le> of_int (2 ^ nat (bitlen a))" by (simp only: of_int_le_iff)
  then have "(of_int a + 1 :: rat) \<le> 2 ^ nat (bitlen a)" by simp
  moreover have "\<bar>x\<bar> < of_int a + 1" unfolding a_def by linarith
  ultimately have "\<bar>x\<bar> < 2 ^ nat (bitlen a)" by linarith
  moreover have "0 \<le> bitlen a" by (rule bitlen_nonneg)
  ultimately show ?thesis by (simp add: e two_powi_nonneg)
next
  case False
  define c where "c = \<lceil>1 / \<bar>x\<bar>\<rceil>"
  define b where "b = bitlen (c - 1)"
  have x: "0 < \<bar>x\<bar>" "\<bar>x\<bar> < 1" using assms False by simp_all
  have "1 < 1 / \<bar>x\<bar>" using x by (simp add: field_simps)
  then have c: "1 < c" unfolding c_def by (simp add: less_ceiling_iff)
  then have c1: "0 < c - 1" by simp
  have e: "ilog2 x = - b" using False by (simp add: ilog2_def b_def c_def)
  have b1: "1 \<le> b" unfolding b_def by (rule bitlen_pos [OF c1])
  have "2 ^ nat (b - 1) \<le> c - 1" using bitlen_bounds [OF c1] by (simp add: b_def)
  then have "(of_int (2 ^ nat (b - 1)) :: rat) \<le> of_int (c - 1)" by (simp only: of_int_le_iff)
  then have "(2 ^ nat (b - 1) :: rat) \<le> of_int c - 1" by simp
  moreover have "of_int c - 1 < 1 / \<bar>x\<bar>" unfolding c_def by linarith
  ultimately have "(2 ^ nat (b - 1) :: rat) < 1 / \<bar>x\<bar>" by linarith
  then have "\<bar>x\<bar> < 1 / 2 ^ nat (b - 1)" using x by (simp add: field_simps)
  moreover have "(2::rat) powi (- b + 1) = 1 / 2 ^ nat (b - 1)"
    using two_powi_neg [of "nat (b - 1)"] b1 by simp
  ultimately show ?thesis by (simp add: e)
qed

lemma two_powi_mono: "a \<le> b \<Longrightarrow> (2::rat) powi a \<le> 2 powi b"
  by (rule power_int_increasing) simp_all

lemma ilog2_eqI:
  assumes "2 powi e \<le> \<bar>x\<bar>" and "\<bar>x\<bar> < 2 powi (e + 1)"
  shows "ilog2 x = e"
proof -
  have x0: "x \<noteq> 0"
  proof
    assume "x = 0"
    then have "(2::rat) powi e \<le> 0" using assms(1) by simp
    moreover have "0 < (2::rat) powi e" by (rule zero_less_power_int) simp
    ultimately show False by simp
  qed
  have "\<not> ilog2 x + 1 \<le> e"
  proof
    assume "ilog2 x + 1 \<le> e"
    then have "(2::rat) powi (ilog2 x + 1) \<le> 2 powi e" by (rule two_powi_mono)
    then show False using ilog2_upper [OF x0] assms(1) by linarith
  qed
  moreover have "\<not> e + 1 \<le> ilog2 x"
  proof
    assume "e + 1 \<le> ilog2 x"
    then have "(2::rat) powi (e + 1) \<le> 2 powi (ilog2 x)" by (rule two_powi_mono)
    then show False using ilog2_lower [OF x0] assms(2) by linarith
  qed
  ultimately show ?thesis by linarith
qed

lemma two_powi_pos: "0 < (2::rat) powi e"
  by (rule zero_less_power_int) simp

lemma two_powi_add: "(2::rat) powi (a + b) = 2 powi a * 2 powi b"
  by (rule power_int_add) simp

lemma binary64_exact:
  assumes x: "x = of_int k * 2 powi p"
    and k: "\<bar>k\<bar> < 2 ^ 53"
    and p: "- 1074 \<le> p"
    and fin: "\<bar>x\<bar> < 2 ^ 1024"
  shows "binary64 x = Inr x"
proof (cases "x = 0")
  case True
  then show ?thesis by (simp add: binary64_def)
next
  case False
  define q where "q = max (ilog2 x) (- 1022) - 52"
  have "\<bar>x\<bar> = of_int \<bar>k\<bar> * 2 powi p"
    using two_powi_pos [of p] by (simp add: x abs_mult)
  moreover have "(of_int \<bar>k\<bar> :: rat) < of_int (2 ^ 53)" using k by (simp only: of_int_less_iff)
  ultimately have "\<bar>x\<bar> < 2 ^ 53 * 2 powi p"
    using two_powi_pos [of p] by simp
  also have "\<dots> = 2 powi (53 + p)" by (simp add: two_powi_add)
  finally have "2 powi (ilog2 x) < (2::rat) powi (53 + p)"
    using ilog2_lower [OF False] by linarith
  then have "\<not> 53 + p \<le> ilog2 x"
    using two_powi_mono [of "53 + p" "ilog2 x"] by linarith
  then have "ilog2 x < 53 + p" by simp
  then have qp: "q \<le> p" using p by (simp add: q_def)
  define d where "d = nat (p - q)"
  have pq: "p = q + int d" using qp by (simp add: d_def)
  have "x / 2 powi q = of_int k * 2 ^ d"
    using two_powi_pos [of q] by (simp add: x pq two_powi_add)
  then have xu: "x / 2 powi q = of_int (k * 2 ^ d)" by simp
  have r: "of_int (round_half_even (x / 2 powi q)) * 2 powi q = x"
    unfolding xu round_half_even_of_int
    using two_powi_pos [of q] by (simp add: x pq two_powi_add)
  show ?thesis
    using False fin r by (simp add: binary64_def Let_def q_def [symmetric])
qed

lemma binary64_half_int:
  assumes "\<bar>n\<bar> < 2 ^ 53"
  shows "binary64 (of_int n / 2) = Inr (of_int n / 2)"
proof (rule binary64_exact [of _ n "- 1"])
  show "(of_int n / 2 :: rat) = of_int n * 2 powi (- 1)" by simp
  show "\<bar>n\<bar> < 2 ^ 53" by (rule assms)
  show "- 1074 \<le> (- 1 :: int)" by simp
  have "\<bar>of_int n / 2 :: rat\<bar> = of_int \<bar>n\<bar> / 2" by simp
  also have "\<dots> \<le> of_int \<bar>n\<bar>" by simp
  also have "\<dots> < of_int (2 ^ 53)" using assms by (simp only: of_int_less_iff)
  also have "\<dots> < 2 ^ 1024" by simp
  finally show "\<bar>of_int n / 2 :: rat\<bar> < 2 ^ 1024" .
qed

lemma binary64_int:
  assumes "\<bar>n\<bar> < 2 ^ 53"
  shows "binary64 (of_int n) = Inr (of_int n)"
proof (rule binary64_exact [of _ n 0])
  show "(of_int n :: rat) = of_int n * 2 powi 0" by simp
  show "\<bar>n\<bar> < 2 ^ 53" by (rule assms)
  show "- 1074 \<le> (0 :: int)" by simp
  have "\<bar>of_int n :: rat\<bar> = of_int \<bar>n\<bar>" by simp
  also have "\<dots> < of_int (2 ^ 53)" using assms by (simp only: of_int_less_iff)
  also have "\<dots> < 2 ^ 1024" by simp
  finally show "\<bar>of_int n :: rat\<bar> < 2 ^ 1024" .
qed

lemma round_half_even_bound: "\<bar>of_int (round_half_even t) :: rat\<bar> \<le> \<bar>t\<bar> + 1"
proof -
  define f where "f = \<lfloor>t\<rfloor>"
  have f: "of_int f \<le> t" "t < of_int f + 1" unfolding f_def by linarith+
  have "round_half_even t = f \<or> round_half_even t = f + 1"
    by (simp add: round_half_even_def Let_def f_def)
  then show ?thesis
  proof
    assume "round_half_even t = f"
    then show ?thesis using f by (simp add: abs_if split: if_splits)
  next
    assume "round_half_even t = f + 1"
    then show ?thesis using f by (simp add: abs_if split: if_splits)
  qed
qed

lemma binary64_finite:
  assumes "\<bar>x\<bar> \<le> 2 ^ 1000"
  shows "\<exists>y. binary64 x = Inr y \<and> \<bar>y\<bar> \<le> 2 * \<bar>x\<bar> + 1"
proof (cases "x = 0")
  case True
  then show ?thesis by (simp add: binary64_def)
next
  case False
  define q where "q = max (ilog2 x) (- 1022) - 52"
  define u where "u = (2::rat) powi q"
  define y where "y = of_int (round_half_even (x / u)) * u"
  have u0: "0 < u" unfolding u_def by (rule two_powi_pos)
  have "u \<le> \<bar>x\<bar> + 1"
  proof (cases "- 1022 \<le> ilog2 x")
    case True
    then have "q \<le> ilog2 x" by (simp add: q_def)
    then have "u \<le> 2 powi (ilog2 x)" unfolding u_def by (rule two_powi_mono)
    then show ?thesis using ilog2_lower [OF False] by linarith
  next
    case False
    then have "q \<le> 0" by (simp add: q_def)
    then have "u \<le> 2 powi 0" unfolding u_def by (rule two_powi_mono)
    then show ?thesis by simp
  qed
  have "\<bar>y\<bar> = \<bar>of_int (round_half_even (x / u)) :: rat\<bar> * u"
    using u0 by (simp add: y_def abs_mult)
  also have "\<dots> \<le> (\<bar>x / u\<bar> + 1) * u"
    using round_half_even_bound [of "x / u"] u0 by (simp add: mult_right_mono)
  also have "\<dots> = \<bar>x\<bar> + u" using u0 by (simp add: field_simps abs_divide)
  also have "\<dots> \<le> 2 * \<bar>x\<bar> + 1" using \<open>u \<le> \<bar>x\<bar> + 1\<close> by simp
  finally have yb: "\<bar>y\<bar> \<le> 2 * \<bar>x\<bar> + 1" .
  have "2 * \<bar>x\<bar> + 1 \<le> 2 * 2 ^ 1000 + 1" using assms by simp
  also have "\<dots> < (2::rat) ^ 1024" by simp
  finally have "\<bar>y\<bar> < 2 ^ 1024" using yb by linarith
  then have "binary64 x = Inr y"
    using False by (simp add: binary64_def Let_def q_def [symmetric] u_def [symmetric] y_def)
  then show ?thesis using yb by blast
qed

lemma py_int_of_int [simp]: "py_int (of_int k) = k"
  by (simp add: py_int_def)

lemma upper_m_exact:
  assumes "0 \<le> r" and "r < 2 ^ 53"
  shows "upper_m r = Inr (py_int (of_int (r - 1) / 2))"
proof -
  have 1: "binary64 (of_int r / 2) = Inr (of_int r / 2)"
    using assms by (intro binary64_half_int) simp
  have 2: "binary64 (of_int (r - 1) / 2) = Inr (of_int (r - 1) / 2)"
    using assms by (intro binary64_half_int) (simp add: abs_if)
  have 3: "(of_int r / 2 - 1 / 2 :: rat) = of_int (r - 1) / 2"
    by (simp add: field_simps)
  show ?thesis
    unfolding upper_m_def bind_err_def
    by (simp only: 1 3 2 sum.case)
qed

lemma upper_m_odd:
  assumes "odd r" and "0 \<le> r" and "r < 2 ^ 53"
  shows "upper_m r = Inr ((r - 1) div 2)"
proof -
  from assms(1) obtain k where k: "r = 2 * k + 1" by (auto elim: oddE)
  have "(of_int (r - 1) / 2 :: rat) = of_int k" by (simp add: k)
  then show ?thesis using upper_m_exact [OF assms(2,3)] by (simp add: k)
qed

lemma shifted_step_exact:
  assumes "0 \<le> r" and "0 \<le> m" and "2 * m + r < 2 ^ 53"
  shows "shifted_step r m = Inr (py_int (of_int (2 * m + r - 1) / 2))"
proof -
  have 1: "binary64 (of_int r / 2) = Inr (of_int r / 2)"
    using assms by (intro binary64_half_int) simp
  have 2: "binary64 (of_int m) = Inr (of_int m)"
    using assms by (intro binary64_int) simp
  have 3: "(of_int m + of_int r / 2 :: rat) = of_int (2 * m + r) / 2"
    by (simp add: field_simps)
  have 4: "binary64 (of_int (2 * m + r) / 2) = Inr (of_int (2 * m + r) / 2)"
    using assms by (intro binary64_half_int) simp
  have 5: "(of_int (2 * m + r) / 2 - 1 / 2 :: rat) = of_int (2 * m + r - 1) / 2"
    by (simp add: field_simps)
  have 6: "binary64 (of_int (2 * m + r - 1) / 2) = Inr (of_int (2 * m + r - 1) / 2)"
    using assms by (intro binary64_half_int) (simp add: abs_if)
  show ?thesis
    unfolding shifted_step_def bind_err_def
    by (simp only: 1 2 3 4 5 6 sum.case)
qed

lemma shifted_step_total:
  assumes "0 \<le> r" and "r < 2 ^ 53" and "0 \<le> m" and "m < 2 ^ 52"
  shows "\<exists>k. shifted_step r m = Inr k"
proof -
  have 1: "binary64 (of_int r / 2) = Inr (of_int r / 2)"
    using assms by (intro binary64_half_int) simp
  have 2: "binary64 (of_int m) = Inr (of_int m)"
    using assms by (intro binary64_int) simp
  define x :: rat where "x = of_int m + of_int r / 2"
  have "(of_int m :: rat) < of_int (2 ^ 52)" "(of_int r :: rat) < of_int (2 ^ 53)"
    using assms by (simp_all only: of_int_less_iff)
  moreover have "(0::rat) \<le> of_int m" "(0::rat) \<le> of_int r" using assms by simp_all
  ultimately have xb: "\<bar>x\<bar> \<le> 2 ^ 53" by (simp add: x_def)
  then have "\<bar>x\<bar> \<le> 2 ^ 1000" by simp
  then obtain s where s: "binary64 x = Inr s" and sb: "\<bar>s\<bar> \<le> 2 * \<bar>x\<bar> + 1"
    using binary64_finite [of x] by blast
  have "\<bar>s - 1 / 2\<bar> \<le> \<bar>s\<bar> + 1" by (simp add: abs_if)
  also have "\<dots> \<le> 2 * 2 ^ 53 + 2" using sb xb by simp
  also have "\<dots> \<le> (2::rat) ^ 1000" by simp
  finally obtain d where d: "binary64 (s - 1 / 2) = Inr d"
    using binary64_finite [of "s - 1 / 2"] by blast
  show ?thesis
    by (simp add: shifted_step_def bind_err_def 1 2 x_def [symmetric] s d)
qed

lemma ilog2_big: "ilog2 (of_int (2 ^ 53 + 1) / 2) = 52"
  by (rule ilog2_eqI) simp_all

lemma binary64_big: "binary64 (of_int (2 ^ 53 + 1) / 2) = Inr (2 ^ 52)"
proof -
  have x: "(of_int (2 ^ 53 + 1) / 2 :: rat) = of_int (2 ^ 52) + 1 / 2" by simp
  have f: "\<lfloor>of_int (2 ^ 52) + 1 / 2 :: rat\<rfloor> = 2 ^ 52"
    by (rule floor_unique) simp_all
  have "round_half_even (of_int (2 ^ 53 + 1) / 2) = 2 ^ 52"
    unfolding x round_half_even_def Let_def f by simp
  moreover have "of_int (2 ^ 53 + 1) / 2 \<noteq> (0::rat)" by simp
  moreover have "\<not> (2::rat) ^ 1024 \<le> \<bar>2 ^ 52\<bar>" by simp
  ultimately show ?thesis
    unfolding binary64_def Let_def ilog2_big by simp
qed

lemma upper_m_big: "upper_m (2 ^ 53 + 1) = Inr (2 ^ 52 - 1)"
proof -
  have "binary64 (of_int (2 ^ 53 - 1) / 2) = Inr (of_int (2 ^ 53 - 1) / 2)"
    by (intro binary64_half_int) simp
  moreover have "(2 ^ 52 - 1 / 2 :: rat) = of_int (2 ^ 53 - 1) / 2" by simp
  moreover have "\<lfloor>of_int (2 ^ 53 - 1) / 2 :: rat\<rfloor> = 2 ^ 52 - 1"
    by (rule floor_unique) simp_all
  then have "py_int (of_int (2 ^ 53 - 1) / 2) = 2 ^ 52 - 1"
    unfolding py_int_def by simp
  ultimately show ?thesis
    unfolding upper_m_def bind_err_def binary64_big by (simp only: sum.case)
qed

lemma upper_m_3: "upper_m 3 = Inr 1"
  using upper_m_odd [of 3] by simp

lemma shifted_step_3_1: "shifted_step 3 1 = Inr 2"
  using shifted_step_exact [of 3 1] by (simp add: py_int_def)

section \<open>Properties of the construction and of the time loop\<close>

lemma calls_foldl_solve_iteration:
  "calls (foldl (solve_iteration c self mem) s its) =
     calls s @ concat (map (\<lambda>i. calls (solve_iteration c self mem \<lparr>calls = [], memsolve = Unbound\<rparr> i)) its)"
proof (induction its arbitrary: s)
  case Nil
  show ?case by simp
next
  case (Cons i its)
  have "calls (solve_iteration c self mem s i) =
        calls s @ calls (solve_iteration c self mem \<lparr>calls = [], memsolve = Unbound\<rparr> i)"
    by (simp add: solve_iteration_def)
  then show ?case using Cons.IH [of "solve_iteration c self mem s i"] by simp
qed

lemma memsolve_foldl_solve_iteration:
  "memsolve (foldl (solve_iteration c self mem) s its) =
     (if its = [] then memsolve s
      else Bound (if cuda c then Some (mem (last its)) else None))"
proof (induction its arbitrary: s)
  case Nil
  show ?case by simp
next
  case (Cons i its)
  show ?case using Cons.IH [of "solve_iteration c self mem s i"]
    by (simp add: solve_iteration_def)
qed

text \<open>
  Claim C1. With sub-gridding enabled, every iteration of \<open>Solver.solve\<close> calls the
  updates object in the order \<open>store_outputs\<close>, \<open>store_snapshots\<close>,
  \<open>update_magnetic\<close>, \<open>update_magnetic_pml\<close>, \<open>update_magnetic_sources\<close>, \<open>hsg_2\<close>,
  \<open>update_electric_a\<close>, \<open>update_electric_pml\<close>, \<open>update_electric_sources\<close>, \<open>hsg_1\<close>,
  \<open>update_electric_b\<close>: the calls of a whole run are \<open>time_start\<close>, then this
  sequence once per iteration, then \<open>finalise\<close>, \<open>calculate_tsolve\<close>, \<open>cleanup\<close>.
  So \<open>hsg_2\<close> lies between the magnetic update and electric part A, and \<open>hsg_1\<close>
  between electric parts A and B. On the CUDA path the memory query
  \<open>calculate_memsolve\<close> follows \<open>update_electric_b\<close>; it updates no field.
\<close>

theorem solve_hsg_call_order:
  assumes "hsg self"
  shows "fst (solve c self mem tsolve iterator) =
     Time_start
     # concat (map (\<lambda>iteration.
         [Store_outputs, Store_snapshots iteration,
          Update_magnetic, Update_magnetic_pml, Update_magnetic_sources,
          Hsg_2,
          Update_electric_a, Update_electric_pml, Update_electric_sources,
          Hsg_1,
          Update_electric_b]
         @ (if cuda c then [Calculate_memsolve iteration] else [])) iterator)
     @ [Finalise, Calculate_tsolve, Cleanup]"
proof -
  have body: "\<And>i. calls (solve_iteration c self mem \<lparr>calls = [], memsolve = Unbound\<rparr> i) =
      [Store_outputs, Store_snapshots i,
          Update_magnetic, Update_magnetic_pml, Update_magnetic_sources,
          Hsg_2,
          Update_electric_a, Update_electric_pml, Update_electric_sources,
          Hsg_1,
          Update_electric_b]
         @ (if cuda c then [Calculate_memsolve i] else [])"
    using assms by (simp add: solve_iteration_def)
  show ?thesis
    by (simp add: solve_def Let_def calls_foldl_solve_iteration body)
qed

theorem solve_hsg_call_order_witness:
  "hsg \<lparr>updates = \<lparr>upd_class = SubgridUpdates, updaters = [], dispersive_set = True\<rparr>, hsg = True\<rparr>
   \<and> fst (solve \<lparr>cpu = True, cuda = False, subgrid = True\<rparr>
        \<lparr>updates = \<lparr>upd_class = SubgridUpdates, updaters = [], dispersive_set = True\<rparr>, hsg = True\<rparr>
        (\<lambda>i. 0) 1 [0, 1]) =
     [Time_start,
      Store_outputs, Store_snapshots 0, Update_magnetic, Update_magnetic_pml,
      Update_magnetic_sources, Hsg_2, Update_electric_a, Update_electric_pml,
      Update_electric_sources, Hsg_1, Update_electric_b,
      Store_outputs, Store_snapshots 1, Update_magnetic, Update_magnetic_pml,
      Update_magnetic_sources, Hsg_2, Update_electric_a, Update_electric_pml,
      Update_electric_sources, Hsg_1, Update_electric_b,
      Finalise, Calculate_tsolve, Cleanup]"
  using solve_hsg_call_order [of "\<lparr>updates = \<lparr>upd_class = SubgridUpdates, updaters = [], dispersive_set = True\<rparr>, hsg = True\<rparr>"
      "\<lparr>cpu = True, cuda = False, subgrid = True\<rparr>" "\<lambda>i. 0" 1 "[0, 1]"]
  by simp

text \<open>
  Claim C10. \<open>Solver.solve\<close> returns its pair exactly when the iterator yields at
  least one iteration: \<open>memsolve\<close> is assigned inside the loop only, so on an empty
  iterator the \<open>return\<close> statement raises \<open>UnboundLocalError\<close>; otherwise the pair
  holds the value of \<open>calculate_tsolve\<close> and the \<open>memsolve\<close> of the last iteration.
\<close>

theorem solve_returns_iff_nonempty:
  "snd (solve c self mem tsolve iterator) =
     (if iterator = [] then Inl UnboundLocalError
      else Inr (tsolve, if cuda c then Some (mem (last iterator)) else None))"
  by (simp add: solve_def Let_def memsolve_foldl_solve_iteration)

lemma create_updates_loop_unrecognised:
  "sg \<in> set sgs \<Longrightarrow> py_type sg \<noteq> SubGridHSG \<Longrightarrow> create_updates_loop sgs us = Inl ValueError"
proof (induction sgs arbitrary: us)
  case Nil
  then show ?case by simp
next
  case (Cons a sgs)
  then show ?case by (cases "a = sg") auto
qed

text \<open>
  A sub-grid of an unrecognised class makes \<open>create_updates\<close> raise \<open>ValueError\<close>,
  which is not the \<open>ConfigurationError\<close> of the specification.
\<close>

theorem create_updates_unrecognised_counterexample:
  "create_updates (sample_main_grid [sample_subgrid OtherClass False 3]) = Inl ValueError
   \<and> create_updates (sample_main_grid [sample_subgrid OtherClass False 3]) \<noteq> Inl ConfigurationError"
  by (simp add: create_updates_def bind_err_def sample_main_grid_def sample_subgrid_def)

text \<open>
  Claim C6, amended. If \<open>G.subgrids\<close> contains a sub-grid whose class is not
  \<open>SubGridHSG\<close>, then \<open>create_updates\<close> raises \<open>ValueError\<close>, and so does
  \<open>create_solver\<close> on the sub-grid path: no solver exists, so no time step is taken.
\<close>

theorem create_updates_unrecognised:
  assumes "sg \<in> set (subgrids G)" and "py_type sg \<noteq> SubGridHSG" and "subgrid c"
  shows "create_updates G = Inl ValueError \<and> create_solver c G = Inl ValueError"
  using assms create_updates_loop_unrecognised [of sg "subgrids G" "[]"]
  by (simp add: create_updates_def create_solver_def bind_err_def)

theorem create_updates_unrecognised_witness:
  "sample_subgrid CUDASubGridHSG True 3 \<in> set (subgrids (sample_main_grid [sample_subgrid SubGridHSG False 3, sample_subgrid CUDASubGridHSG True 3]))
   \<and> py_type (sample_subgrid CUDASubGridHSG True 3) \<noteq> SubGridHSG
   \<and> subgrid \<lparr>cpu = True, cuda = False, subgrid = True\<rparr>
   \<and> create_updates (sample_main_grid [sample_subgrid SubGridHSG False 3, sample_subgrid CUDASubGridHSG True 3]) = Inl ValueError
   \<and> create_solver \<lparr>cpu = True, cuda = False, subgrid = True\<rparr>
        (sample_main_grid [sample_subgrid SubGridHSG False 3, sample_subgrid CUDASubGridHSG True 3]) = Inl ValueError"
proof -
  have 1: "sample_subgrid CUDASubGridHSG True 3 \<in> set (subgrids (sample_main_grid [sample_subgrid SubGridHSG False 3, sample_subgrid CUDASubGridHSG True 3]))"
    by (simp add: sample_main_grid_def)
  have 2: "py_type (sample_subgrid CUDASubGridHSG True 3) \<noteq> SubGridHSG"
    by (simp add: sample_subgrid_def)
  have 3: "subgrid \<lparr>cpu = True, cuda = False, subgrid = True\<rparr>" by simp
  show ?thesis using 1 2 3 create_updates_unrecognised [OF 1 2 3] by simp
qed

text \<open>
  With neither \<open>cpu\<close> nor \<open>cuda\<close> set, the construction ends in
  \<open>UnboundLocalError\<close>, not in \<open>ConfigurationError\<close>.
\<close>

theorem no_backend_counterexample:
  "create_G \<lparr>cpu = False, cuda = False, subgrid = False\<rparr> = Inl UnboundLocalError
   \<and> create_G \<lparr>cpu = False, cuda = False, subgrid = False\<rparr> \<noteq> Inl ConfigurationError
   \<and> create_solver \<lparr>cpu = False, cuda = False, subgrid = False\<rparr> (sample_main_grid []) \<noteq> Inl ConfigurationError"
  by (simp add: create_G_def create_solver_def)

text \<open>
  Claim C7, amended. If the configuration selects neither \<open>cpu\<close> nor \<open>cuda\<close>, then
  \<open>create_G\<close> raises \<open>UnboundLocalError\<close>, and so does \<open>create_solver\<close> unless
  sub-gridding is selected.
\<close>

theorem no_backend_unbound_local:
  assumes "\<not> cpu c" and "\<not> cuda c"
  shows "create_G c = Inl UnboundLocalError
         \<and> (\<not> subgrid c \<longrightarrow> create_solver c G = Inl UnboundLocalError)"
  using assms by (simp add: create_G_def create_solver_def)

theorem no_backend_unbound_local_witness:
  "\<not> cpu \<lparr>cpu = False, cuda = False, subgrid = False\<rparr>
   \<and> \<not> cuda \<lparr>cpu = False, cuda = False, subgrid = False\<rparr>
   \<and> \<not> subgrid \<lparr>cpu = False, cuda = False, subgrid = False\<rparr>
   \<and> create_G \<lparr>cpu = False, cuda = False, subgrid = False\<rparr> = Inl UnboundLocalError
   \<and> create_solver \<lparr>cpu = False, cuda = False, subgrid = False\<rparr> (sample_main_grid []) = Inl UnboundLocalError"
  using no_backend_unbound_local [of "\<lparr>cpu = False, cuda = False, subgrid = False\<rparr>" "sample_main_grid []"]
  by simp

text \<open>
  With sub-gridding selected, \<open>create_solver\<close> does not look at the backend flags
  before it builds the sub-grid solver.
\<close>

lemma create_solver_subgrid_no_backend:
  "create_solver \<lparr>cpu = False, cuda = False, subgrid = True\<rparr> (sample_main_grid []) =
     Inr \<lparr>updates = \<lparr>upd_class = SubgridUpdates, updaters = [], dispersive_set = True\<rparr>, hsg = True\<rparr>"
  by (simp add: create_solver_def create_updates_def bind_err_def sample_main_grid_def set_dispersive_updates_def)

section \<open>Properties of the sub-grid updater\<close>

lemma hsg_1_loop_complete:
  "hsg_1_loop r ms = (cs, None) \<Longrightarrow>
     cs = concat (map (\<lambda>m. hsg_1_step (projr (shifted_step r m)) m) ms)"
proof (induction ms arbitrary: cs)
  case Nil
  then show ?case by simp
next
  case (Cons m ms)
  then show ?case
    by (auto split: sum.splits prod.splits)
qed

lemma hsg_2_loop_complete:
  "hsg_2_loop r ms = (cs, None) \<Longrightarrow>
     cs = concat (map (\<lambda>m. hsg_2_step (projr (shifted_step r m)) m) ms)"
proof (induction ms arbitrary: cs)
  case Nil
  then show ?case by simp
next
  case (Cons m ms)
  then show ?case
    by (auto split: sum.splits prod.splits)
qed

lemma hsg_1_complete:
  assumes "hsg_1 self = (cs, None)"
  shows "\<exists>um. upper_m (ratio (grid self)) = Inr um \<and>
     cs = Prec Prec_update_electric
          # concat (map (\<lambda>m. hsg_1_step (projr (shifted_step (ratio (grid self)) m)) m) [1..um])
          @ hsg_1_final"
  using assms hsg_1_loop_complete [of "ratio (grid self)"]
  by (auto simp: hsg_1_def Let_def split: sum.splits prod.splits option.splits)

lemma hsg_2_complete:
  assumes "hsg_2 self = (cs, None)"
  shows "\<exists>um. upper_m (ratio (grid self)) = Inr um \<and>
     cs = Prec Prec_update_magnetic
          # concat (map (\<lambda>m. hsg_2_step (projr (shifted_step (ratio (grid self)) m)) m) [1..um])
          @ hsg_2_final"
  using assms hsg_2_loop_complete [of "ratio (grid self)"]
  by (auto simp: hsg_2_def Let_def split: sum.splits prod.splits option.splits)

lemma filter_concat_map:
  "(\<And>m. filter P (f m) = ys) \<Longrightarrow> filter P (concat (map f ms)) = concat (replicate (length ms) ys)"
  by (induction ms) auto

lemma hsg_1_loop_total:
  assumes "\<And>m. m \<in> set ms \<Longrightarrow> \<exists>k. shifted_step r m = Inr k"
  shows "hsg_1_loop r ms =
     (concat (map (\<lambda>m. hsg_1_step (projr (shifted_step r m)) m) ms), None)"
  using assms
proof (induction ms)
  case Nil
  show ?case by simp
next
  case (Cons m ms)
  from Cons.prems [of m] obtain k where k: "shifted_step r m = Inr k" by auto
  have "hsg_1_loop r ms =
     (concat (map (\<lambda>m. hsg_1_step (projr (shifted_step r m)) m) ms), None)"
    using Cons.IH Cons.prems by simp
  then show ?case by (simp add: k)
qed

lemma hsg_2_loop_total:
  assumes "\<And>m. m \<in> set ms \<Longrightarrow> \<exists>k. shifted_step r m = Inr k"
  shows "hsg_2_loop r ms =
     (concat (map (\<lambda>m. hsg_2_step (projr (shifted_step r m)) m) ms), None)"
  using assms
proof (induction ms)
  case Nil
  show ?case by simp
next
  case (Cons m ms)
  from Cons.prems [of m] obtain k where k: "shifted_step r m = Inr k" by auto
  have "hsg_2_loop r ms =
     (concat (map (\<lambda>m. hsg_2_step (projr (shifted_step r m)) m) ms), None)"
    using Cons.IH Cons.prems by simp
  then show ?case by (simp add: k)
qed

lemma shifted_step_in_loop:
  assumes "0 \<le> r" and "r < 2 ^ 53" and "m \<in> set [1..(r - 1) div 2]"
  shows "\<exists>k. shifted_step r m = Inr k"
proof (rule shifted_step_total)
  show "0 \<le> r" "r < 2 ^ 53" by (rule assms)+
  show "0 \<le> m" using assms(3) by simp
  have "(r - 1) div 2 < 2 ^ 52" using assms(2) by simp
  then show "m < 2 ^ 52" using assms(3) by simp
qed

lemma ratio_sample_updater: "ratio (grid (sample_updater r)) = r"
  by (simp add: sample_updater_def SubgridUpdater_def sample_subgrid_def)

lemma hsg_1_sample_updater_3:
  "hsg_1 (sample_updater 3) =
     ([Prec Prec_update_electric,
       Self Store_outputs, Self Update_electric_a, Self Update_electric_pml,
       Prec (Interpolate_magnetic_in_time 2), Sub Update_electric_is,
       Self Update_electric_sources, Self Update_electric_b,
       Self Update_magnetic, Self Update_magnetic_pml,
       Prec (Interpolate_electric_in_time 1), Sub Update_magnetic_is,
       Self Update_magnetic_sources,
       Self Store_outputs, Self Update_electric_a, Self Update_electric_pml,
       Prec Calc_exact_magnetic_in_time, Sub Update_electric_is,
       Self Update_electric_sources, Self Update_electric_b,
       Sub Update_electric_os], None)"
  by (simp add: hsg_1_def ratio_sample_updater upper_m_3 shifted_step_3_1
        hsg_1_step_def hsg_1_final_def)

lemma hsg_2_sample_updater_3:
  "hsg_2 (sample_updater 3) =
     ([Prec Prec_update_magnetic,
       Self Update_magnetic, Self Update_magnetic_pml,
       Prec (Interpolate_electric_in_time 2), Sub Update_magnetic_is,
       Self Update_magnetic_sources,
       Self Store_outputs, Self Update_electric_a, Self Update_electric_pml,
       Prec (Interpolate_magnetic_in_time 1), Sub Update_electric_is,
       Self Update_electric_sources, Self Update_electric_b,
       Self Update_magnetic, Self Update_magnetic_pml,
       Prec Calc_exact_electric_in_time, Sub Update_magnetic_is,
       Self Update_magnetic_sources,
       Sub Update_magnetic_os], None)"
  by (simp add: hsg_2_def ratio_sample_updater upper_m_3 shifted_step_3_1
        hsg_2_step_def hsg_2_final_def)

text \<open>
  Claim C3. In a run of \<open>hsg_1\<close> and in a run of \<open>hsg_2\<close>, the calls
  \<open>update_electric_a\<close>, \<open>update_electric_is\<close>, \<open>update_electric_sources\<close> occur only
  as repetitions of this triple, in this order, and so do \<open>update_magnetic\<close>,
  \<open>update_magnetic_is\<close>, \<open>update_magnetic_sources\<close>: in every fine sub-step the advance
  of a field comes before the IS injection for that field, and the injection before the
  sources of that field. \<open>hsg_1\<close> has one electric triple more than magnetic ones (its
  final sub-step), \<open>hsg_2\<close> one magnetic triple more than electric ones.
\<close>

theorem hsg_substep_order:
  assumes "hsg_1 self = (cs1, None)" and "hsg_2 self = (cs2, None)"
  shows "\<exists>n.
     filter (\<lambda>c. c \<in> {Self Update_electric_a, Sub Update_electric_is, Self Update_electric_sources}) cs1
       = concat (replicate (Suc n) [Self Update_electric_a, Sub Update_electric_is, Self Update_electric_sources])
   \<and> filter (\<lambda>c. c \<in> {Self Update_magnetic, Sub Update_magnetic_is, Self Update_magnetic_sources}) cs1
       = concat (replicate n [Self Update_magnetic, Sub Update_magnetic_is, Self Update_magnetic_sources])
   \<and> filter (\<lambda>c. c \<in> {Self Update_magnetic, Sub Update_magnetic_is, Self Update_magnetic_sources}) cs2
       = concat (replicate (Suc n) [Self Update_magnetic, Sub Update_magnetic_is, Self Update_magnetic_sources])
   \<and> filter (\<lambda>c. c \<in> {Self Update_electric_a, Sub Update_electric_is, Self Update_electric_sources}) cs2
       = concat (replicate n [Self Update_electric_a, Sub Update_electric_is, Self Update_electric_sources])"
proof -
  define E where "E = (\<lambda>c. c \<in> {Self Update_electric_a, Sub Update_electric_is, Self Update_electric_sources})"
  define M where "M = (\<lambda>c. c \<in> {Self Update_magnetic, Sub Update_magnetic_is, Self Update_magnetic_sources})"
  define et where "et = [Self Update_electric_a, Sub Update_electric_is, Self Update_electric_sources]"
  define mt where "mt = [Self Update_magnetic, Sub Update_magnetic_is, Self Update_magnetic_sources]"
  let ?r = "ratio (grid self)"
  let ?k = "\<lambda>m. projr (shifted_step ?r m)"
  obtain um where um: "upper_m ?r = Inr um"
    and cs1: "cs1 = Prec Prec_update_electric
          # concat (map (\<lambda>m. hsg_1_step (?k m) m) [1..um]) @ hsg_1_final"
    using hsg_1_complete [OF assms(1)] by blast
  obtain um' where um': "upper_m ?r = Inr um'"
    and cs2: "cs2 = Prec Prec_update_magnetic
          # concat (map (\<lambda>m. hsg_2_step (?k m) m) [1..um']) @ hsg_2_final"
    using hsg_2_complete [OF assms(2)] by blast
  have eq: "um' = um" using um um' by simp
  have e1: "\<And>m. filter E (hsg_1_step (?k m) m) = et"
    and m1: "\<And>m. filter M (hsg_1_step (?k m) m) = mt"
    by (simp_all add: hsg_1_step_def E_def M_def et_def mt_def)
  have e2: "\<And>m. filter E (hsg_2_step (?k m) m) = et"
    and m2: "\<And>m. filter M (hsg_2_step (?k m) m) = mt"
    by (simp_all add: hsg_2_step_def E_def M_def et_def mt_def)
  have f1: "filter E hsg_1_final = et" "filter M hsg_1_final = []"
    by (simp_all add: hsg_1_final_def E_def M_def et_def)
  have f2: "filter M hsg_2_final = mt" "filter E hsg_2_final = []"
    by (simp_all add: hsg_2_final_def E_def M_def mt_def)
  have p1: "\<not> E (Prec Prec_update_electric)" "\<not> M (Prec Prec_update_electric)"
    and p2: "\<not> E (Prec Prec_update_magnetic)" "\<not> M (Prec Prec_update_magnetic)"
    by (simp_all add: E_def M_def)
  let ?n = "length [1..um]"
  have snoc: "\<And>n (xs::sg_call list). concat (replicate n xs) @ xs = concat (replicate (Suc n) xs)"
  proof -
    fix n and xs :: "sg_call list"
    show "concat (replicate n xs) @ xs = concat (replicate (Suc n) xs)"
      by (induction n) auto
  qed
  have A: "filter E cs1 = concat (replicate (Suc ?n) et)"
    unfolding cs1
    by (simp only: filter.simps filter_append p1 if_False
          filter_concat_map [where P = E, OF e1] f1 snoc)
  have B: "filter M cs1 = concat (replicate ?n mt)"
    unfolding cs1
    by (simp only: filter.simps filter_append p1 if_False
          filter_concat_map [where P = M, OF m1] f1 append_Nil2)
  have C: "filter M cs2 = concat (replicate (Suc ?n) mt)"
    unfolding cs2 eq
    by (simp only: filter.simps filter_append p2 if_False
          filter_concat_map [where P = M, OF m2] f2 snoc)
  have D: "filter E cs2 = concat (replicate ?n et)"
    unfolding cs2 eq
    by (simp only: filter.simps filter_append p2 if_False
          filter_concat_map [where P = E, OF e2] f2 append_Nil2)
  from A B C D show ?thesis unfolding E_def M_def et_def mt_def by blast
qed

theorem hsg_substep_order_witness:
  "hsg_1 (sample_updater 3) = (fst (hsg_1 (sample_updater 3)), None)
   \<and> hsg_2 (sample_updater 3) = (fst (hsg_2 (sample_updater 3)), None)
   \<and> (\<exists>n.
     filter (\<lambda>c. c \<in> {Self Update_electric_a, Sub Update_electric_is, Self Update_electric_sources})
         (fst (hsg_1 (sample_updater 3)))
       = concat (replicate (Suc n) [Self Update_electric_a, Sub Update_electric_is, Self Update_electric_sources])
   \<and> filter (\<lambda>c. c \<in> {Self Update_magnetic, Sub Update_magnetic_is, Self Update_magnetic_sources})
         (fst (hsg_1 (sample_updater 3)))
       = concat (replicate n [Self Update_magnetic, Sub Update_magnetic_is, Self Update_magnetic_sources])
   \<and> filter (\<lambda>c. c \<in> {Self Update_magnetic, Sub Update_magnetic_is, Self Update_magnetic_sources})
         (fst (hsg_2 (sample_updater 3)))
       = concat (replicate (Suc n) [Self Update_magnetic, Sub Update_magnetic_is, Self Update_magnetic_sources])
   \<and> filter (\<lambda>c. c \<in> {Self Update_electric_a, Sub Update_electric_is, Self Update_electric_sources})
         (fst (hsg_2 (sample_updater 3)))
       = concat (replicate n [Self Update_electric_a, Sub Update_electric_is, Self Update_electric_sources]))"
proof -
  have 1: "hsg_1 (sample_updater 3) = (fst (hsg_1 (sample_updater 3)), None)"
    by (simp add: hsg_1_sample_updater_3)
  have 2: "hsg_2 (sample_updater 3) = (fst (hsg_2 (sample_updater 3)), None)"
    by (simp add: hsg_2_sample_updater_3)
  show ?thesis by (intro conjI 1 2 hsg_substep_order [OF 1 2])
qed

text \<open>
  Claim C5. A run of \<open>hsg_1\<close> ends with \<open>calc_exact_magnetic_in_time\<close>,
  \<open>update_electric_is\<close>, \<open>update_electric_sources\<close>, \<open>update_electric_b\<close>,
  \<open>update_electric_os\<close>, and a run of \<open>hsg_2\<close> with \<open>calc_exact_electric_in_time\<close>,
  \<open>update_magnetic_is\<close>, \<open>update_magnetic_sources\<close>, \<open>update_magnetic_os\<close>: the call
  just before the last IS injection is the exact one, not an interpolation.
\<close>

theorem hsg_final_exact:
  assumes "hsg_1 self = (cs1, None)" and "hsg_2 self = (cs2, None)"
  shows "(\<exists>pre. cs1 = pre @ [Prec Calc_exact_magnetic_in_time, Sub Update_electric_is,
                             Self Update_electric_sources, Self Update_electric_b,
                             Sub Update_electric_os])
       \<and> (\<exists>pre. cs2 = pre @ [Prec Calc_exact_electric_in_time, Sub Update_magnetic_is,
                             Self Update_magnetic_sources, Sub Update_magnetic_os])"
proof -
  obtain um where cs1: "cs1 = Prec Prec_update_electric
          # concat (map (\<lambda>m. hsg_1_step (projr (shifted_step (ratio (grid self)) m)) m) [1..um])
          @ hsg_1_final"
    using hsg_1_complete [OF assms(1)] by blast
  obtain um' where cs2: "cs2 = Prec Prec_update_magnetic
          # concat (map (\<lambda>m. hsg_2_step (projr (shifted_step (ratio (grid self)) m)) m) [1..um'])
          @ hsg_2_final"
    using hsg_2_complete [OF assms(2)] by blast
  have 1: "\<exists>pre. cs1 = pre @ [Prec Calc_exact_magnetic_in_time, Sub Update_electric_is,
                             Self Update_electric_sources, Self Update_electric_b,
                             Sub Update_electric_os]"
    unfolding cs1 hsg_1_final_def
    by (rule exI [of _ "Prec Prec_update_electric
          # concat (map (\<lambda>m. hsg_1_step (projr (shifted_step (ratio (grid self)) m)) m) [1..um])
          @ [Self Store_outputs, Self Update_electric_a, Self Update_electric_pml]"]) simp
  have 2: "\<exists>pre. cs2 = pre @ [Prec Calc_exact_electric_in_time, Sub Update_magnetic_is,
                             Self Update_magnetic_sources, Sub Update_magnetic_os]"
    unfolding cs2 hsg_2_final_def
    by (rule exI [of _ "Prec Prec_update_magnetic
          # concat (map (\<lambda>m. hsg_2_step (projr (shifted_step (ratio (grid self)) m)) m) [1..um'])
          @ [Self Update_magnetic, Self Update_magnetic_pml]"]) simp
  from 1 2 show ?thesis by blast
qed

theorem hsg_final_exact_witness:
  "hsg_1 (sample_updater 3) = (fst (hsg_1 (sample_updater 3)), None)
   \<and> hsg_2 (sample_updater 3) = (fst (hsg_2 (sample_updater 3)), None)
   \<and> (\<exists>pre. fst (hsg_1 (sample_updater 3)) =
          pre @ [Prec Calc_exact_magnetic_in_time, Sub Update_electric_is,
                 Self Update_electric_sources, Self Update_electric_b,
                 Sub Update_electric_os])
   \<and> (\<exists>pre. fst (hsg_2 (sample_updater 3)) =
          pre @ [Prec Calc_exact_electric_in_time, Sub Update_magnetic_is,
                 Self Update_magnetic_sources, Sub Update_magnetic_os])"
proof -
  have 1: "hsg_1 (sample_updater 3) = (fst (hsg_1 (sample_updater 3)), None)"
    by (simp add: hsg_1_sample_updater_3)
  have 2: "hsg_2 (sample_updater 3) = (fst (hsg_2 (sample_updater 3)), None)"
    by (simp add: hsg_2_sample_updater_3)
  show ?thesis using 1 2 hsg_final_exact [OF 1 2] by blast
qed

text \<open>
  The ratio \<open>2 ^ 53 + 1\<close> is odd, but its half \<open>2 ^ 52 + 1 / 2\<close> is no binary64
  number: the quotient rounds to \<open>2 ^ 52\<close>, and \<open>upper_m\<close> is \<open>2 ^ 52 - 1\<close>, one less
  than \<open>(ratio - 1) / 2\<close>.
\<close>

theorem upper_m_counterexample:
  "odd (2 ^ 53 + 1 :: int) \<and> 3 \<le> (2 ^ 53 + 1 :: int)
   \<and> upper_m (2 ^ 53 + 1) = Inr (2 ^ 52 - 1)
   \<and> upper_m (2 ^ 53 + 1) \<noteq> Inr ((2 ^ 53 + 1 - 1) div 2)"
  using upper_m_big by simp

text \<open>
  Claim C4, amended. For every odd ratio from \<open>3\<close> up to \<open>2 ^ 53\<close>, \<open>upper_m\<close> is
  \<open>(ratio - 1) / 2\<close>, and \<open>hsg_1\<close> and \<open>hsg_2\<close> each run to their end with one pass
  through the loop body for each \<open>m = 1 .. (ratio - 1) / 2\<close>, which are
  \<open>(ratio - 1) / 2\<close> passes.
\<close>

theorem hsg_loop_count:
  assumes "odd (ratio (grid self))" and "3 \<le> ratio (grid self)"
    and "ratio (grid self) < 2 ^ 53"
  shows "upper_m (ratio (grid self)) = Inr ((ratio (grid self) - 1) div 2)
   \<and> length [1..(ratio (grid self) - 1) div 2] = nat ((ratio (grid self) - 1) div 2)
   \<and> (\<exists>k. hsg_1 self =
         (Prec Prec_update_electric
            # concat (map (\<lambda>m. hsg_1_step (k m) m) [1..(ratio (grid self) - 1) div 2])
            @ hsg_1_final, None))
   \<and> (\<exists>k. hsg_2 self =
         (Prec Prec_update_magnetic
            # concat (map (\<lambda>m. hsg_2_step (k m) m) [1..(ratio (grid self) - 1) div 2])
            @ hsg_2_final, None))"
proof -
  let ?r = "ratio (grid self)"
  let ?k = "\<lambda>m. projr (shifted_step ?r m)"
  have r0: "0 \<le> ?r" using assms(2) by simp
  have um: "upper_m ?r = Inr ((?r - 1) div 2)"
    using assms(1) r0 assms(3) by (rule upper_m_odd)
  have tot: "\<And>m. m \<in> set [1..(?r - 1) div 2] \<Longrightarrow> \<exists>k. shifted_step ?r m = Inr k"
    using r0 assms(3) by (rule shifted_step_in_loop)
  have l1: "hsg_1_loop ?r [1..(?r - 1) div 2] =
     (concat (map (\<lambda>m. hsg_1_step (?k m) m) [1..(?r - 1) div 2]), None)"
    by (rule hsg_1_loop_total) (rule tot)
  have l2: "hsg_2_loop ?r [1..(?r - 1) div 2] =
     (concat (map (\<lambda>m. hsg_2_step (?k m) m) [1..(?r - 1) div 2]), None)"
    by (rule hsg_2_loop_total) (rule tot)
  have 1: "hsg_1 self =
         (Prec Prec_update_electric
            # concat (map (\<lambda>m. hsg_1_step (?k m) m) [1..(?r - 1) div 2])
            @ hsg_1_final, None)"
    by (simp add: hsg_1_def Let_def um l1)
  have 2: "hsg_2 self =
         (Prec Prec_update_magnetic
            # concat (map (\<lambda>m. hsg_2_step (?k m) m) [1..(?r - 1) div 2])
            @ hsg_2_final, None)"
    by (simp add: hsg_2_def Let_def um l2)
  have 3: "length [1..(?r - 1) div 2] = nat ((?r - 1) div 2)" by simp
  show ?thesis
  proof (intro conjI)
    show "upper_m ?r = Inr ((?r - 1) div 2)" by (rule um)
    show "length [1..(?r - 1) div 2] = nat ((?r - 1) div 2)" by (rule 3)
    show "\<exists>k. hsg_1 self =
         (Prec Prec_update_electric
            # concat (map (\<lambda>m. hsg_1_step (k m) m) [1..(?r - 1) div 2])
            @ hsg_1_final, None)"
      by (rule exI [of _ ?k]) (rule 1)
    show "\<exists>k. hsg_2 self =
         (Prec Prec_update_magnetic
            # concat (map (\<lambda>m. hsg_2_step (k m) m) [1..(?r - 1) div 2])
            @ hsg_2_final, None)"
      by (rule exI [of _ ?k]) (rule 2)
  qed
qed

theorem hsg_loop_count_witness:
  "odd (ratio (grid (sample_updater 5))) \<and> 3 \<le> ratio (grid (sample_updater 5))
   \<and> ratio (grid (sample_updater 5)) < 2 ^ 53
   \<and> upper_m (ratio (grid (sample_updater 5))) = Inr 2
   \<and> (\<exists>k :: int \<Rightarrow> int. hsg_1 (sample_updater 5) =
         (Prec Prec_update_electric # hsg_1_step (k 1) 1 @ hsg_1_step (k 2) 2 @ hsg_1_final, None))
   \<and> (\<exists>k :: int \<Rightarrow> int. hsg_2 (sample_updater 5) =
         (Prec Prec_update_magnetic # hsg_2_step (k 1) 1 @ hsg_2_step (k 2) 2 @ hsg_2_final, None))"
  using hsg_loop_count [of "sample_updater 5"]
  by (simp add: ratio_sample_updater upto_rec1)

end
